theory Spec2Isabelle
  imports Complex_Main "HOL-Library.Multiset" "HOL-Library.Sublist"
begin

section \<open>The DataTable component (frontend/src/components/DataTable.tsx)\<close>

text \<open>
  The component keeps five pieces of state (\<open>search\<close>, \<open>sortKey\<close>, \<open>sortDir\<close>, \<open>page\<close>,
  \<open>currentPageSize\<close>) and derives from them and from its props (\<open>data\<close>, \<open>columns\<close>) the
  values \<open>filtered\<close>, \<open>sorted\<close>, \<open>totalPages\<close>, \<open>safePage\<close> and \<open>paged\<close>. Each derived
  value is a pure function of the props and the state, and is modelled as such.
\<close>

subsection \<open>Cells, rows and columns\<close>

text \<open>
  A row is a \<open>Record<string, unknown>\<close>. The tables of the repository are JSON arrays, so a
  cell is a JSON scalar; a key the row does not have reads as \<open>undefined\<close>. Finite JavaScript
  numbers are rationals, and the comparator below only uses the sign of a difference,
  which IEEE subtraction of finite numbers gives exactly.
\<close>

datatype jsval = JUndefined | JNull | JBool bool | JNum rat | JStr string

type_synonym row = "(string \<times> jsval) list"

text \<open>\<open>row[key]\<close>\<close>

definition get :: "row \<Rightarrow> string \<Rightarrow> jsval" where
  "get r k = (case map_of r k of None \<Rightarrow> JUndefined | Some v \<Rightarrow> v)"

text \<open>
  \<open>interface Column<T> { key; label; format? }\<close>. The optional \<open>format\<close> is used only when a
  cell is rendered, never by the derived values.
\<close>

record column =
  key :: string
  label :: string

text \<open>
  Three built-ins of the host are taken as parameters: \<open>Number.prototype.toString\<close> (the
  decimal rendering of a number), \<open>String.prototype.localeCompare\<close> (which depends on the
  locale, and returns a negative number, zero or a positive number), and
  \<open>String.prototype.toLowerCase\<close> on text that is not all ASCII (the case mappings of
  Unicode, some of which depend on the neighbouring characters).
\<close>

record host =
  numToString :: "rat \<Rightarrow> string"
  localeCompare :: "string \<Rightarrow> string \<Rightarrow> rat"
  unicodeToLowerCase :: "string \<Rightarrow> string"

text \<open>\<open>String(v)\<close>\<close>

fun String :: "host \<Rightarrow> jsval \<Rightarrow> string" where
  "String h JUndefined = ''undefined''"
| "String h JNull = ''null''"
| "String h (JBool b) = (if b then ''true'' else ''false'')"
| "String h (JNum x) = numToString h x"
| "String h (JStr s) = s"

subsection \<open>Searching\<close>

text \<open>
  A string is the list of its bytes: one byte per character for ASCII text, the UTF-8
  encoding for other text. \<open>s.toLowerCase()\<close> follows the case mappings of Unicode. On a
  string of ASCII characters they lower the letters \<open>A\<close> to \<open>Z\<close> and change nothing else,
  which is written out here; on any other string the result is the host's.
\<close>

definition ascii :: "string \<Rightarrow> bool" where
  "ascii s = list_all (\<lambda>c. (of_char c :: nat) < 128) s"

definition isUpper :: "char \<Rightarrow> bool" where
  "isUpper c = (65 \<le> (of_char c :: nat) \<and> (of_char c :: nat) \<le> 90)"

definition lower_char :: "char \<Rightarrow> char" where
  "lower_char c = (if isUpper c then char_of ((of_char c :: nat) + 32) else c)"

definition toLowerCase :: "host \<Rightarrow> string \<Rightarrow> string" where
  "toLowerCase h s = (if ascii s then map lower_char s else unicodeToLowerCase h s)"

text \<open>\<open>s.includes(q)\<close>: \<open>q\<close> occurs in \<open>s\<close> as a contiguous run of characters.\<close>

definition str_includes :: "string \<Rightarrow> string \<Rightarrow> bool" where
  "str_includes s q = sublist q s"

text \<open>
  \<^verbatim>\<open>
  const filtered = useMemo(() => {
    if (!search) return data;
    const q = search.toLowerCase();
    return data.filter((row) =>
      columns.some((col) => String(row[col.key]).toLowerCase().includes(q))
    );
  }, [data, search, columns]);
  \<close>
  \<open>search\<close> is a string, so \<open>!search\<close> holds exactly for the empty string.
\<close>

definition filtered :: "host \<Rightarrow> row list \<Rightarrow> column list \<Rightarrow> string \<Rightarrow> row list" where
  "filtered h data columns search =
     (if search = [] then data
      else let q = toLowerCase h search in
        filter (\<lambda>row. list_ex (\<lambda>col. str_includes (toLowerCase h (String h (get row (key col)))) q) columns)
          data)"

text \<open>
  What it means for a string of ASCII text to contain a query case-insensitively, stated
  without \<open>toLowerCase\<close>: some contiguous run of the string agrees with the query
  character by character, where two characters agree when they are equal or are the
  upper-case and the lower-case form of one of the letters \<open>A\<close> to \<open>Z\<close>.
\<close>

definition same_letter :: "char \<Rightarrow> char \<Rightarrow> bool" where
  "same_letter a b =
     (a = b \<or> (isUpper a \<and> (of_char b :: nat) = of_char a + 32)
            \<or> (isUpper b \<and> (of_char a :: nat) = of_char b + 32))"

fun ci_prefix :: "string \<Rightarrow> string \<Rightarrow> bool" where
  "ci_prefix [] s = True"
| "ci_prefix (a # q) [] = False"
| "ci_prefix (a # q) (b # s) = (same_letter a b \<and> ci_prefix q s)"

fun contains_ci :: "string \<Rightarrow> string \<Rightarrow> bool" where
  "contains_ci [] q = (q = [])"
| "contains_ci (c # s) q = (ci_prefix q (c # s) \<or> contains_ci s q)"

subsection \<open>Sorting\<close>

datatype SortDir = Asc | Desc

text \<open>
  \<open>Array.prototype.sort\<close> with a comparator: the language requires a stable sort that
  places \<open>a\<close> before \<open>b\<close> when the comparator is negative. It is modelled as the stable
  insertion sort; an engine may run another algorithm, and with a comparator that is not
  a consistent ordering the order it produces is its own choice.
\<close>

fun insert_by :: "('a \<Rightarrow> 'a \<Rightarrow> rat) \<Rightarrow> 'a \<Rightarrow> 'a list \<Rightarrow> 'a list" where
  "insert_by cmp x [] = [x]"
| "insert_by cmp x (y # ys) = (if cmp x y \<le> 0 then x # y # ys else y # insert_by cmp x ys)"

fun array_sort :: "('a \<Rightarrow> 'a \<Rightarrow> rat) \<Rightarrow> 'a list \<Rightarrow> 'a list" where
  "array_sort cmp [] = []"
| "array_sort cmp (x # xs) = insert_by cmp x (array_sort cmp xs)"

text \<open>
  The comparator of the component:
  \<^verbatim>\<open>
  (a, b) => {
    const va = a[sortKey];
    const vb = b[sortKey];
    if (typeof va === "number" && typeof vb === "number") {
      return sortDir === "asc" ? va - vb : vb - va;
    }
    return sortDir === "asc"
      ? String(va).localeCompare(String(vb))
      : String(vb).localeCompare(String(va));
  }
  \<close>
\<close>

definition compare_rows :: "host \<Rightarrow> string \<Rightarrow> SortDir \<Rightarrow> row \<Rightarrow> row \<Rightarrow> rat" where
  "compare_rows h sortKey sortDir a b =
     (let va = get a sortKey; vb = get b sortKey in
      case (va, vb) of
        (JNum x, JNum y) \<Rightarrow> (if sortDir = Asc then x - y else y - x)
      | _ \<Rightarrow> (if sortDir = Asc then localeCompare h (String h va) (String h vb)
              else localeCompare h (String h vb) (String h va)))"

text \<open>
  \<^verbatim>\<open>
  const sorted = useMemo(() => {
    if (!sortKey || !sortDir) return filtered;
    return [...filtered].sort((a, b) => { ... });
  }, [filtered, sortKey, sortDir]);
  \<close>
  \<open>sortKey\<close> is a key or \<open>null\<close>, and \<open>!sortKey\<close> holds for \<open>null\<close> and for the empty key;
  \<open>sortDir\<close> is \<open>"asc"\<close>, \<open>"desc"\<close> or \<open>null\<close>, and \<open>!sortDir\<close> holds for \<open>null\<close> only.
\<close>

definition sorted_rows :: "host \<Rightarrow> string option \<Rightarrow> SortDir option \<Rightarrow> row list \<Rightarrow> row list" where
  "sorted_rows h sortKey sortDir rows =
     (case (sortKey, sortDir) of
        (Some k, Some d) \<Rightarrow> (if k = [] then rows else array_sort (compare_rows h k d) rows)
      | _ \<Rightarrow> rows)"

subsection \<open>Paging\<close>

text \<open>
  \<open>page\<close> and \<open>currentPageSize\<close> are JavaScript numbers. The model covers the integers, and
  the three values that arithmetic on integers can leave the integers for: a division by
  zero gives \<open>Infinity\<close>, \<open>-Infinity\<close> or \<open>NaN\<close>. Fractional page sizes are outside the model.
\<close>

datatype jsnum = Fin int | PosInf | NegInf | NaN

text \<open>\<open>a <= b\<close> on numbers: every comparison with \<open>NaN\<close> is false.\<close>

fun js_le :: "jsnum \<Rightarrow> jsnum \<Rightarrow> bool" where
  "js_le NaN _ = False"
| "js_le _ NaN = False"
| "js_le NegInf _ = True"
| "js_le _ PosInf = True"
| "js_le (Fin a) (Fin b) = (a \<le> b)"
| "js_le _ _ = False"

text \<open>\<open>Math.ceil(n / d)\<close> for an array length \<open>n\<close> and an integer \<open>d\<close>.\<close>

definition ceil_div :: "nat \<Rightarrow> int \<Rightarrow> jsnum" where
  "ceil_div n d =
     (if d = 0 then (if n = 0 then NaN else PosInf)
      else Fin \<lceil>(of_nat n :: rat) / of_int d\<rceil>)"

text \<open>\<open>Math.max(a, x)\<close> and \<open>Math.min(a, x)\<close> for an integer \<open>a\<close>: \<open>NaN\<close> if \<open>x\<close> is.\<close>

fun js_max :: "int \<Rightarrow> jsnum \<Rightarrow> jsnum" where
  "js_max a (Fin b) = Fin (max a b)"
| "js_max a PosInf = PosInf"
| "js_max a NegInf = Fin a"
| "js_max a NaN = NaN"

fun js_min :: "int \<Rightarrow> jsnum \<Rightarrow> jsnum" where
  "js_min a (Fin b) = Fin (min a b)"
| "js_min a PosInf = Fin a"
| "js_min a NegInf = NegInf"
| "js_min a NaN = NaN"

text \<open>\<open>x - 1\<close> and \<open>x * d\<close> for an integer \<open>d\<close>.\<close>

fun js_pred :: "jsnum \<Rightarrow> jsnum" where
  "js_pred (Fin a) = Fin (a - 1)"
| "js_pred x = x"

fun js_times :: "jsnum \<Rightarrow> int \<Rightarrow> jsnum" where
  "js_times (Fin a) d = Fin (a * d)"
| "js_times NaN d = NaN"
| "js_times PosInf d = (if d = 0 then NaN else if 0 < d then PosInf else NegInf)"
| "js_times NegInf d = (if d = 0 then NaN else if 0 < d then NegInf else PosInf)"

text \<open>
  \<open>Array.prototype.slice(start, end)\<close>: each bound is made an integer (\<open>NaN\<close> becomes 0), a
  negative bound counts from the end of the array, and both are clamped to the array.
\<close>

fun rel_index :: "nat \<Rightarrow> jsnum \<Rightarrow> nat" where
  "rel_index len NaN = 0"
| "rel_index len NegInf = 0"
| "rel_index len PosInf = len"
| "rel_index len (Fin k) = (if k < 0 then nat (max (int len + k) 0) else nat (min k (int len)))"

definition slice :: "'a list \<Rightarrow> jsnum \<Rightarrow> jsnum \<Rightarrow> 'a list" where
  "slice xs start end' =
     (let from = rel_index (length xs) start; to = rel_index (length xs) end'
      in take (to - from) (drop from xs))"

text \<open>
  \<^verbatim>\<open>
  const totalPages = Math.max(1, Math.ceil(sorted.length / currentPageSize));
  const safePage = Math.min(page, totalPages);
  const paged = sorted.slice((safePage - 1) * currentPageSize, safePage * currentPageSize);
  \<close>
\<close>

definition totalPages :: "'a list \<Rightarrow> int \<Rightarrow> jsnum" where
  "totalPages rows currentPageSize = js_max 1 (ceil_div (length rows) currentPageSize)"

definition safePage :: "'a list \<Rightarrow> int \<Rightarrow> int \<Rightarrow> jsnum" where
  "safePage rows page currentPageSize = js_min page (totalPages rows currentPageSize)"

definition paged :: "'a list \<Rightarrow> int \<Rightarrow> int \<Rightarrow> 'a list" where
  "paged rows page currentPageSize =
     slice rows
       (js_times (js_pred (safePage rows page currentPageSize)) currentPageSize)
       (js_times (safePage rows page currentPageSize) currentPageSize)"

text \<open>
  The two arguments of that \<open>slice\<close>, \<open>(safePage - 1) * currentPageSize\<close> and
  \<open>safePage * currentPageSize\<close>, before \<open>slice\<close> clamps them.
\<close>

definition slice_start :: "'a list \<Rightarrow> int \<Rightarrow> int \<Rightarrow> jsnum" where
  "slice_start rows page currentPageSize =
     js_times (js_pred (safePage rows page currentPageSize)) currentPageSize"

definition slice_end :: "'a list \<Rightarrow> int \<Rightarrow> int \<Rightarrow> jsnum" where
  "slice_end rows page currentPageSize =
     js_times (safePage rows page currentPageSize) currentPageSize"

section \<open>The analytics engine (backend/core/services/crypto_analytics.py)\<close>

text \<open>
  The Python module that computes balance histories and metrics is not among the source
  files: only its documentation is (backend/core/README.md and the architecture plan).
  The definitions of this section follow sections 3, 4.2, 4.3 and 7 of the
  specification. A calendar date is a day number, a timestamp a number of seconds, and
  amounts of money are rationals.
\<close>

text \<open>
  Modelled from the spec: the \<open>TransferEvent\<close> of section 3 (the \<open>Transaction\<close> schema of the
  missing module): \<open>signed_value_satoshis\<close> is positive for an inbound transfer and
  negative for an outbound one.
\<close>

record TransferEvent =
  timestamp :: int
  address :: string
  signed_value_satoshis :: int
  usd_value_at_time :: rat

text \<open>
  Modelled from the spec: the \<open>BalanceSample\<close> of section 3, one row per calendar day of
  the balance history that the missing module builds.
\<close>

record BalanceSample =
  sample_date :: int
  balance_satoshis :: int
  balance_usd :: rat

text \<open>Modelled from the spec: the errors of section 7 that the missing module raises.\<close>

datatype engine_error = DataUnavailable | InvalidWindow

text \<open>
  Modelled from the spec: the calendar date of a timestamp (section 4.2, step 2), which
  the missing module reads off its timestamps: the number of whole days since the epoch.
\<close>

definition date_of :: "int \<Rightarrow> int" where
  "date_of ts = ts div 86400"

text \<open>Modelled from the spec: the date of an event (section 4.2, steps 2 and 3).\<close>

definition event_date :: "TransferEvent \<Rightarrow> int" where
  "event_date e = date_of (timestamp e)"

text \<open>
  Modelled from the spec: step 3 of the Balance History Builder (section 4.2), whose code
  is missing. The walk visits the days in order, adds to the running sum the
  \<open>signed_value_satoshis\<close> of every event dated that day, and emits one sample per day;
  \<open>balance_usd\<close> is step 4, \<open>balance_satoshis / 1e8 * close_price_usd\<close>, with the day's
  close price read from \<open>close_on\<close>.
\<close>

fun walk :: "(int \<Rightarrow> rat) \<Rightarrow> TransferEvent list \<Rightarrow> int \<Rightarrow> int list \<Rightarrow> BalanceSample list" where
  "walk close_on events running [] = []"
| "walk close_on events running (day # days) =
     (let running' = running
            + sum_list (map signed_value_satoshis (filter (\<lambda>e. event_date e = day) events))
      in \<lparr>sample_date = day, balance_satoshis = running',
          balance_usd = of_int running' / 100000000 * close_on day\<rparr>
         # walk close_on events running' days)"

text \<open>
  Modelled from the spec: the Balance History Builder (section 4.2), whose code
  (\<open>CryptoAnalytics.get_address_balance\<close>) is missing. Step 1 sorts the events by
  timestamp, stably; step 2 takes the date of the earliest; step 3 walks from that date
  to \<open>end_date\<close>. No event gives the empty sequence, and an \<open>end_date\<close> before the first
  transaction is the \<open>InvalidWindow\<close> of section 7.
\<close>

definition build_balance_history ::
  "(int \<Rightarrow> rat) \<Rightarrow> TransferEvent list \<Rightarrow> int \<Rightarrow> engine_error + BalanceSample list" where
  "build_balance_history close_on events end_date =
     (case sort_key timestamp events of
        [] \<Rightarrow> Inr []
      | e # es \<Rightarrow>
          (let first_active_date = event_date e in
           if end_date < first_active_date then Inl InvalidWindow
           else Inr (walk close_on (e # es) 0 [first_active_date..end_date])))"

text \<open>
  Modelled from the spec: \<open>exposure\<close> of the Performance Metrics Calculator (section 4.3),
  whose code is missing: the mean over all days of the window of
  \<open>balance_satoshis[day] / max(balance_satoshis over window)\<close>, and 0 if that maximum
  is 0; an empty sequence has the neutral value 0.
\<close>

definition exposure :: "BalanceSample list \<Rightarrow> rat" where
  "exposure samples =
     (if samples = [] then 0
      else let m = Max (set (map balance_satoshis samples)) in
        if m = 0 then 0
        else sum_list (map (\<lambda>s. of_int (balance_satoshis s) / of_int m) samples)
               / of_nat (length samples))"

section \<open>Properties of the DataTable component\<close>

subsection \<open>Sorting keeps the rows\<close>

lemma mset_insert_by: "mset (insert_by cmp x xs) = add_mset x (mset xs)"
  by (induction xs) auto

lemma mset_array_sort: "mset (array_sort cmp xs) = mset xs"
  by (induction xs) (auto simp: mset_insert_by)

text \<open>
  Claim C10. For every list of filtered rows and every sort state, the sorted list is a
  permutation of the filtered list: it has the same rows with the same multiplicities, so
  no row is added, dropped or changed. When \<open>sortKey\<close> or \<open>sortDir\<close> is \<open>null\<close>, the sorted
  list is the filtered list itself.
\<close>

theorem sorted_rows_permutation:
  "mset (sorted_rows h sortKey sortDir rows) = mset rows
   \<and> (sortKey = None \<or> sortDir = None \<longrightarrow> sorted_rows h sortKey sortDir rows = rows)"
  by (auto simp: sorted_rows_def mset_array_sort split: option.splits)

theorem sorted_rows_permutation_witness:
  "sorted_rows \<lparr>numToString = (\<lambda>x. []), localeCompare = (\<lambda>a b. 0), unicodeToLowerCase = (\<lambda>s. s)\<rparr> None (Some Asc)
     [[(''address'', JStr ''a''), (''profit'', JNum 1)],
      [(''address'', JStr ''b''), (''profit'', JNum 3)],
      [(''address'', JStr ''c''), (''profit'', JNum 2)]]
   = [[(''address'', JStr ''a''), (''profit'', JNum 1)],
      [(''address'', JStr ''b''), (''profit'', JNum 3)],
      [(''address'', JStr ''c''), (''profit'', JNum 2)]]
   \<and> mset (sorted_rows \<lparr>numToString = (\<lambda>x. []), localeCompare = (\<lambda>a b. 0), unicodeToLowerCase = (\<lambda>s. s)\<rparr>
        (Some ''profit'') (Some Desc)
        [[(''address'', JStr ''a''), (''profit'', JNum 1)],
         [(''address'', JStr ''b''), (''profit'', JNum 3)],
         [(''address'', JStr ''c''), (''profit'', JNum 2)]])
     = mset [[(''address'', JStr ''a''), (''profit'', JNum 1)],
             [(''address'', JStr ''b''), (''profit'', JNum 3)],
             [(''address'', JStr ''c''), (''profit'', JNum 2)]]"
  using
    sorted_rows_permutation [of "\<lparr>numToString = (\<lambda>x. []), localeCompare = (\<lambda>a b. 0), unicodeToLowerCase = (\<lambda>s. s)\<rparr>"
      None "Some Asc"
      "[[(''address'', JStr ''a''), (''profit'', JNum 1)],
        [(''address'', JStr ''b''), (''profit'', JNum 3)],
        [(''address'', JStr ''c''), (''profit'', JNum 2)]]"]
    sorted_rows_permutation [of "\<lparr>numToString = (\<lambda>x. []), localeCompare = (\<lambda>a b. 0), unicodeToLowerCase = (\<lambda>s. s)\<rparr>"
      "Some ''profit''" "Some Desc"
      "[[(''address'', JStr ''a''), (''profit'', JNum 1)],
        [(''address'', JStr ''b''), (''profit'', JNum 3)],
        [(''address'', JStr ''c''), (''profit'', JNum 2)]]"]
  by simp

subsection \<open>Searching keeps the matching rows, in order\<close>

lemma of_char_lower: "isUpper c \<Longrightarrow> (of_char (lower_char c) :: nat) = of_char c + 32"
  by (simp add: lower_char_def isUpper_def)

lemma lower_char_eq_iff: "lower_char a = lower_char b \<longleftrightarrow> same_letter a b"
proof (cases "isUpper a"; cases "isUpper b")
  assume a: "isUpper a" and b: "isUpper b"
  have "lower_char a = lower_char b \<longleftrightarrow> (of_char (lower_char a) :: nat) = of_char (lower_char b)"
    by simp
  also have "\<dots> \<longleftrightarrow> a = b" using a b by (simp add: of_char_lower)
  also have "\<dots> \<longleftrightarrow> same_letter a b" using a b by (auto simp: same_letter_def isUpper_def)
  finally show ?thesis .
next
  assume a: "isUpper a" and b: "\<not> isUpper b"
  have "lower_char a = lower_char b \<longleftrightarrow> (of_char (lower_char a) :: nat) = of_char b"
    using b by (auto simp: lower_char_def)
  also have "\<dots> \<longleftrightarrow> same_letter a b"
    using a b by (auto simp: of_char_lower same_letter_def)
  finally show ?thesis .
next
  assume a: "\<not> isUpper a" and b: "isUpper b"
  have "lower_char a = lower_char b \<longleftrightarrow> (of_char a :: nat) = of_char (lower_char b)"
    using a by (auto simp: lower_char_def)
  also have "\<dots> \<longleftrightarrow> same_letter a b"
    using a b by (auto simp: of_char_lower same_letter_def)
  finally show ?thesis .
next
  assume "\<not> isUpper a" and "\<not> isUpper b"
  then show ?thesis by (auto simp: lower_char_def same_letter_def)
qed

lemma prefix_lower_iff: "prefix (map lower_char q) (map lower_char s) \<longleftrightarrow> ci_prefix q s"
  by (induction q s rule: ci_prefix.induct) (auto simp: lower_char_eq_iff)

lemma includes_lower_iff:
  "str_includes (map lower_char s) (map lower_char q) \<longleftrightarrow> contains_ci s q"
proof (induction s)
  case Nil
  then show ?case by (simp add: str_includes_def)
next
  case (Cons c s)
  have "str_includes (map lower_char (c # s)) (map lower_char q)
      \<longleftrightarrow> prefix (map lower_char q) (map lower_char (c # s))
          \<or> str_includes (map lower_char s) (map lower_char q)"
    by (simp add: str_includes_def sublist_Cons_right)
  then show ?case using Cons prefix_lower_iff [of q "c # s"] by simp
qed

lemma includes_toLowerCase_iff:
  assumes "ascii s" and "ascii q"
  shows "str_includes (toLowerCase h s) (toLowerCase h q) \<longleftrightarrow> contains_ci s q"
  using assms by (simp add: toLowerCase_def includes_lower_iff)

lemma contains_ci_empty: "contains_ci s []"
  by (induction s) auto

lemma filtered_as_filter:
  assumes "search \<noteq> [] \<or> columns \<noteq> []" and "ascii search"
    and "\<forall>row\<in>set data. \<forall>col\<in>set columns. ascii (String h (get row (key col)))"
  shows "filtered h data columns search
       = filter (\<lambda>row. \<exists>col\<in>set columns. contains_ci (String h (get row (key col))) search) data"
proof (cases "search = []")
  case True
  then obtain col where "col \<in> set columns" using assms(1) by (cases columns) auto
  then have "\<exists>col\<in>set columns. contains_ci (String h (get row (key col))) search" for row
    using True contains_ci_empty by blast
  then have "filter (\<lambda>row. \<exists>col\<in>set columns. contains_ci (String h (get row (key col))) search) data = data"
    by (simp add: filter_id_conv)
  then show ?thesis using True by (simp add: filtered_def)
next
  case False
  have "filter (\<lambda>row. list_ex (\<lambda>col. str_includes (toLowerCase h (String h (get row (key col))))
                                      (toLowerCase h search)) columns) data
      = filter (\<lambda>row. \<exists>col\<in>set columns. contains_ci (String h (get row (key col))) search) data"
    using assms(2,3) by (intro filter_cong) (auto simp: list_ex_iff includes_toLowerCase_iff)
  then show ?thesis using False by (simp add: filtered_def Let_def)
qed

lemma filtered_subseq: "subseq (filtered h data columns search) data"
  by (simp add: filtered_def Let_def)

text \<open>
  Claim C9, as amended. When the search string is empty, the filtered list is the input
  data unchanged. For every search string the filtered list is an order-preserving
  subsequence of the data. When the search string is not empty or the table has at least
  one column, and the search string and the string values of the columns are ASCII text,
  the filtered list holds exactly the rows in which the string value of some column
  contains the query case-insensitively.
\<close>

theorem filtered_matching_rows:
  "(search = [] \<longrightarrow> filtered h data columns search = data)
   \<and> subseq (filtered h data columns search) data
   \<and> ((search \<noteq> [] \<or> columns \<noteq> []) \<and> ascii search
        \<and> (\<forall>row\<in>set data. \<forall>col\<in>set columns. ascii (String h (get row (key col)))) \<longrightarrow>
        filtered h data columns search
          = filter (\<lambda>row. \<exists>col\<in>set columns. contains_ci (String h (get row (key col))) search) data)"
  using filtered_as_filter [of search columns data h] filtered_subseq [of h data columns search]
  by (simp add: filtered_def)

theorem filtered_matching_rows_witness:
  "filtered \<lparr>numToString = (\<lambda>x. []), localeCompare = (\<lambda>a b. 0), unicodeToLowerCase = (\<lambda>s. s)\<rparr>
     [[(''address'', JStr ''1Abc'')], [(''address'', JStr ''3xyz'')], [(''address'', JStr ''bc1q'')]]
     [\<lparr>key = ''address'', label = ''Address''\<rparr>] ''BC''
   = [[(''address'', JStr ''1Abc'')], [(''address'', JStr ''bc1q'')]]
   \<and> filtered \<lparr>numToString = (\<lambda>x. []), localeCompare = (\<lambda>a b. 0), unicodeToLowerCase = (\<lambda>s. s)\<rparr>
       [[(''address'', JStr ''1Abc'')], [(''address'', JStr ''3xyz'')], [(''address'', JStr ''bc1q'')]]
       [\<lparr>key = ''address'', label = ''Address''\<rparr>] []
     = [[(''address'', JStr ''1Abc'')], [(''address'', JStr ''3xyz'')], [(''address'', JStr ''bc1q'')]]"
proof -
  let ?h = "\<lparr>numToString = (\<lambda>x. []), localeCompare = (\<lambda>a b. 0), unicodeToLowerCase = (\<lambda>s. s)\<rparr>"
  let ?data = "[[(''address'', JStr ''1Abc'')], [(''address'', JStr ''3xyz'')], [(''address'', JStr ''bc1q'')]]"
  let ?columns = "[\<lparr>key = ''address'', label = ''Address''\<rparr>]"
  have query: "''BC'' \<noteq> []" and plain: "ascii ''BC''" by (simp_all add: ascii_def)
  have cells: "\<forall>row\<in>set ?data. \<forall>col\<in>set ?columns. ascii (String ?h (get row (key col)))"
    by (simp add: get_def ascii_def)
  have "filtered ?h ?data ?columns ''BC''
      = filter (\<lambda>row. \<exists>col\<in>set ?columns. contains_ci (String ?h (get row (key col))) ''BC'') ?data"
    using filtered_matching_rows [of "''BC''" ?h ?data ?columns] query plain cells by blast
  also have "\<dots> = [[(''address'', JStr ''1Abc'')], [(''address'', JStr ''bc1q'')]]"
    by (simp add: get_def same_letter_def isUpper_def)
  finally have searched: "filtered ?h ?data ?columns ''BC''
      = [[(''address'', JStr ''1Abc'')], [(''address'', JStr ''bc1q'')]]" .
  have "filtered ?h ?data ?columns [] = ?data"
    using filtered_matching_rows [of "[]" ?h ?data ?columns] by blast
  with searched show ?thesis by simp
qed

text \<open>
  The claim as it was stated fails in two places. For a table with no column and an empty
  search string, the component returns every row, and no row has a column whose value
  contains the query. Beyond ASCII, the component compares the two lower-cased strings,
  and lower-casing depends on the position of a letter: \<open>toLowerCase\<close> turns the Greek
  capitals alpha, sigma (bytes CE 91 CE A3) into alpha, final sigma (CE B1 CF 82) and a
  capital sigma alone (CE A3) into the non-final sigma (CF 83), so a row whose value is
  the first string is dropped when the query is the second, although the value contains
  the query letter for letter.
\<close>

theorem filtered_exact_rows_counterexample:
  "filtered \<lparr>numToString = (\<lambda>x. []), localeCompare = (\<lambda>a b. 0), unicodeToLowerCase = (\<lambda>s. s)\<rparr>
     [[(''address'', JStr ''1Abc'')]] [] []
   \<noteq> filter (\<lambda>row. \<exists>col\<in>set ([] :: column list).
         contains_ci (String \<lparr>numToString = (\<lambda>x. []), localeCompare = (\<lambda>a b. 0),
                              unicodeToLowerCase = (\<lambda>s. s)\<rparr> (get row (key col))) [])
       [[(''address'', JStr ''1Abc'')]]
   \<and> filtered
        \<lparr>numToString = (\<lambda>x. []), localeCompare = (\<lambda>a b. 0),
         unicodeToLowerCase = (\<lambda>s.
           if s = [CHR 0xCE, CHR 0x91, CHR 0xCE, CHR 0xA3] then [CHR 0xCE, CHR 0xB1, CHR 0xCF, CHR 0x82]
           else if s = [CHR 0xCE, CHR 0xA3] then [CHR 0xCF, CHR 0x83] else s)\<rparr>
        [[(''name'', JStr [CHR 0xCE, CHR 0x91, CHR 0xCE, CHR 0xA3])]]
        [\<lparr>key = ''name'', label = ''Name''\<rparr>] [CHR 0xCE, CHR 0xA3]
     = []
   \<and> str_includes [CHR 0xCE, CHR 0x91, CHR 0xCE, CHR 0xA3] [CHR 0xCE, CHR 0xA3]
   \<and> filter (\<lambda>row. \<exists>col\<in>set [\<lparr>key = ''name'', label = ''Name''\<rparr>].
         contains_ci (String
           \<lparr>numToString = (\<lambda>x. []), localeCompare = (\<lambda>a b. 0),
            unicodeToLowerCase = (\<lambda>s.
              if s = [CHR 0xCE, CHR 0x91, CHR 0xCE, CHR 0xA3] then [CHR 0xCE, CHR 0xB1, CHR 0xCF, CHR 0x82]
              else if s = [CHR 0xCE, CHR 0xA3] then [CHR 0xCF, CHR 0x83] else s)\<rparr>
           (get row (key col))) [CHR 0xCE, CHR 0xA3])
       [[(''name'', JStr [CHR 0xCE, CHR 0x91, CHR 0xCE, CHR 0xA3])]]
     = [[(''name'', JStr [CHR 0xCE, CHR 0x91, CHR 0xCE, CHR 0xA3])]]"
  by code_simp

subsection \<open>Paging stays inside the rows\<close>

lemma ceil_facts:
  fixes d :: int and n :: nat
  assumes "0 < d"
  defines "c \<equiv> \<lceil>(of_nat n :: rat) / of_int d\<rceil>"
  shows "0 \<le> c" and "int n \<le> c * d" and "(c - 1) * d < int n \<or> (n = 0 \<and> c = 0)"
proof -
  let ?x = "(of_nat n :: rat) / of_int d"
  have dpos: "(0::rat) < of_int d" using assms by simp
  have x0: "0 \<le> ?x" using dpos by simp
  show "0 \<le> c" unfolding c_def using x0 by (simp add: zero_le_ceiling)
  have "?x \<le> of_int c" unfolding c_def by (rule le_of_int_ceiling)
  then have "(of_nat n :: rat) \<le> of_int c * of_int d"
    using dpos by (simp add: pos_divide_le_eq)
  then have "(of_int (int n) :: rat) \<le> of_int (c * d)" by simp
  then show "int n \<le> c * d" by (simp only: of_int_le_iff)
  show "(c - 1) * d < int n \<or> (n = 0 \<and> c = 0)"
  proof (cases "n = 0")
    case True
    then show ?thesis by (simp add: c_def)
  next
    case False
    have "of_int c - 1 < ?x" unfolding c_def using ceiling_correct[of ?x] by simp
    then have "(of_int c - 1) * of_int d < (of_nat n :: rat)"
      using dpos by (simp add: pos_less_divide_eq)
    then have "(of_int ((c - 1) * d) :: rat) < of_int (int n)" by simp
    then have "(c - 1) * d < int n" by (simp only: of_int_less_iff)
    then show ?thesis by simp
  qed
qed

lemma paging_core:
  fixes ps page :: int and rows :: "'a list"
  assumes ps: "0 < ps" and pg: "1 \<le> page"
  defines "t \<equiv> max 1 \<lceil>(of_nat (length rows) :: rat) / of_int ps\<rceil>"
  defines "s \<equiv> min page t"
  shows "totalPages rows ps = Fin t" and "safePage rows page ps = Fin s"
    and "1 \<le> s" and "s \<le> t"
    and "0 \<le> (s - 1) * ps" and "(s - 1) * ps \<le> int (length rows)"
    and "paged rows page ps = take (nat ps) (drop (nat ((s - 1) * ps)) rows)"
proof -
  let ?n = "length rows"
  let ?c = "\<lceil>(of_nat ?n :: rat) / of_int ps\<rceil>"
  show tp: "totalPages rows ps = Fin t"
    using ps by (simp add: totalPages_def ceil_div_def t_def)
  show sp: "safePage rows page ps = Fin s"
    by (simp add: safePage_def tp s_def)
  show s1: "1 \<le> s" using pg by (simp add: s_def t_def)
  show "s \<le> t" by (simp add: s_def)
  show lo: "0 \<le> (s - 1) * ps" using s1 ps by simp
  have "(t - 1) * ps \<le> int ?n"
  proof (cases "1 \<le> ?c")
    case True
    then have "t = ?c" by (simp add: t_def)
    then show ?thesis using ceil_facts(3)[OF ps, of ?n] ps by auto
  next
    case False
    then have "t = 1" by (simp add: t_def)
    then show ?thesis by simp
  qed
  moreover have "(s - 1) * ps \<le> (t - 1) * ps"
    using ps by (simp add: s_def mult_right_mono)
  ultimately show hi: "(s - 1) * ps \<le> int ?n" by linarith
  define a where "a = (s - 1) * ps"
  have sps: "s * ps = a + ps" by (simp add: a_def algebra_simps)
  have a0: "0 \<le> a" and an: "a \<le> int ?n" using lo hi by (simp_all add: a_def)
  have first_index: "rel_index ?n (Fin a) = nat a" using a0 an by (simp add: min_def)
  have last_index: "rel_index ?n (Fin (a + ps)) = nat (min (a + ps) (int ?n))"
    using a0 ps by simp
  have "take (nat (min (a + ps) (int ?n)) - nat a) (drop (nat a) rows)
      = take (nat ps) (drop (nat a) rows)"
  proof (cases "a + ps \<le> int ?n")
    case True
    then have "nat (min (a + ps) (int ?n)) - nat a = nat ps"
      using a0 ps by (simp add: min_def nat_add_distrib)
    then show ?thesis by simp
  next
    case False
    then have "nat (min (a + ps) (int ?n)) - nat a = length (drop (nat a) rows)"
      by (simp add: min_def)
    moreover have "length (drop (nat a) rows) \<le> nat ps"
      using False a0 by simp
    ultimately show ?thesis by simp
  qed
  then show "paged rows page ps = take (nat ps) (drop (nat ((s - 1) * ps)) rows)"
    unfolding paged_def sp slice_def Let_def js_pred.simps js_times.simps sps
    unfolding a_def[symmetric] first_index last_index by simp
qed

text \<open>
  Claim C8, as amended. For every data array, columns list, search string and sort state,
  every page number of at least 1 (the component stores no other: \<open>page\<close> starts at 1 and
  is set to 1, to a listed page, or one step from \<open>safePage\<close> behind a disabled button)
  and every page size of at least 1: \<open>totalPages\<close> is at least 1, \<open>safePage\<close> lies between
  1 and \<open>totalPages\<close>, and \<open>paged\<close> has at most \<open>currentPageSize\<close> rows. The start index of
  the slice lies between 0 and the number of rows. The end index,
  \<open>safePage * currentPageSize\<close>, is not bounded by the number of rows; \<open>slice\<close> clamps it
  to the number of rows, so that \<open>paged\<close> is the run of at most \<open>currentPageSize\<close> rows from
  the start index and every row of it is read at an index inside the array. This includes
  the case where no row is left after filtering.
\<close>

theorem paging_within_bounds:
  fixes h :: host and sortKey :: "string option" and sortDir :: "SortDir option"
    and data :: "row list" and columns :: "column list" and search :: string
    and page currentPageSize :: int
  assumes "1 \<le> currentPageSize" and "1 \<le> page"
  defines "rows \<equiv> sorted_rows h sortKey sortDir (filtered h data columns search)"
  shows "js_le (Fin 1) (totalPages rows currentPageSize)
       \<and> js_le (Fin 1) (safePage rows page currentPageSize)
       \<and> js_le (safePage rows page currentPageSize) (totalPages rows currentPageSize)
       \<and> int (length (paged rows page currentPageSize)) \<le> currentPageSize
       \<and> (\<exists>s. safePage rows page currentPageSize = Fin s
              \<and> slice_start rows page currentPageSize = Fin ((s - 1) * currentPageSize)
              \<and> 0 \<le> (s - 1) * currentPageSize
              \<and> (s - 1) * currentPageSize \<le> int (length rows)
              \<and> slice_end rows page currentPageSize = Fin (s * currentPageSize)
              \<and> rel_index (length rows) (slice_end rows page currentPageSize)
                  = nat (min (s * currentPageSize) (int (length rows)))
              \<and> paged rows page currentPageSize
                  = take (nat currentPageSize) (drop (nat ((s - 1) * currentPageSize)) rows)
              \<and> (\<forall>i<length (paged rows page currentPageSize).
                    nat ((s - 1) * currentPageSize) + i < length rows
                    \<and> paged rows page currentPageSize ! i
                        = rows ! (nat ((s - 1) * currentPageSize) + i)))"
proof -
  have ps: "0 < currentPageSize" using assms(1) by simp
  note core = paging_core [OF ps assms(2), of rows]
  obtain s where sp: "safePage rows page currentPageSize = Fin s" and s1: "1 \<le> s"
    using core(2) core(3) by blast
  let ?a = "(s - 1) * currentPageSize"
  have lo: "0 \<le> ?a" and hi: "?a \<le> int (length rows)"
    and run: "paged rows page currentPageSize = take (nat currentPageSize) (drop (nat ?a) rows)"
    using core(2) core(5) core(6) core(7) sp by simp_all
  have start: "slice_start rows page currentPageSize = Fin ?a"
    by (simp add: slice_start_def sp)
  have stop: "slice_end rows page currentPageSize = Fin (s * currentPageSize)"
    by (simp add: slice_end_def sp)
  have "0 \<le> s * currentPageSize" using s1 ps by simp
  then have clamped: "rel_index (length rows) (slice_end rows page currentPageSize)
      = nat (min (s * currentPageSize) (int (length rows)))"
    by (simp add: stop)
  have inside: "nat ?a + i < length rows
      \<and> paged rows page currentPageSize ! i = rows ! (nat ?a + i)"
    if "i < length (paged rows page currentPageSize)" for i
  proof -
    have "i < length rows - nat ?a" and "i < nat currentPageSize"
      using that by (simp_all add: run)
    then show ?thesis by (simp add: run)
  qed
  have "int (length (paged rows page currentPageSize)) \<le> currentPageSize"
    using ps by (simp add: run)
  moreover have "js_le (Fin 1) (totalPages rows currentPageSize)"
    by (simp add: core(1))
  moreover have "js_le (Fin 1) (safePage rows page currentPageSize)"
    using s1 by (simp add: sp)
  moreover have "js_le (safePage rows page currentPageSize) (totalPages rows currentPageSize)"
    using core(4) by (simp add: core(1) core(2))
  ultimately show ?thesis using sp start lo hi stop clamped run inside by blast
qed

theorem paging_within_bounds_witness:
  "(1::int) \<le> 2 \<and> (1::int) \<le> 5
   \<and> totalPages (sorted_rows \<lparr>numToString = (\<lambda>x. []), localeCompare = (\<lambda>a b. 0), unicodeToLowerCase = (\<lambda>s. s)\<rparr> None None
        (filtered \<lparr>numToString = (\<lambda>x. []), localeCompare = (\<lambda>a b. 0), unicodeToLowerCase = (\<lambda>s. s)\<rparr>
          [[(''address'', JStr ''a'')], [(''address'', JStr ''b'')], [(''address'', JStr ''c'')]]
          [\<lparr>key = ''address'', label = ''Address''\<rparr>] [])) 2 = Fin 2
   \<and> safePage (sorted_rows \<lparr>numToString = (\<lambda>x. []), localeCompare = (\<lambda>a b. 0), unicodeToLowerCase = (\<lambda>s. s)\<rparr> None None
        (filtered \<lparr>numToString = (\<lambda>x. []), localeCompare = (\<lambda>a b. 0), unicodeToLowerCase = (\<lambda>s. s)\<rparr>
          [[(''address'', JStr ''a'')], [(''address'', JStr ''b'')], [(''address'', JStr ''c'')]]
          [\<lparr>key = ''address'', label = ''Address''\<rparr>] [])) 5 2 = Fin 2
   \<and> slice_end (sorted_rows \<lparr>numToString = (\<lambda>x. []), localeCompare = (\<lambda>a b. 0), unicodeToLowerCase = (\<lambda>s. s)\<rparr> None None
        (filtered \<lparr>numToString = (\<lambda>x. []), localeCompare = (\<lambda>a b. 0), unicodeToLowerCase = (\<lambda>s. s)\<rparr>
          [[(''address'', JStr ''a'')], [(''address'', JStr ''b'')], [(''address'', JStr ''c'')]]
          [\<lparr>key = ''address'', label = ''Address''\<rparr>] [])) 5 2 = Fin 4
   \<and> paged (sorted_rows \<lparr>numToString = (\<lambda>x. []), localeCompare = (\<lambda>a b. 0), unicodeToLowerCase = (\<lambda>s. s)\<rparr> None None
        (filtered \<lparr>numToString = (\<lambda>x. []), localeCompare = (\<lambda>a b. 0), unicodeToLowerCase = (\<lambda>s. s)\<rparr>
          [[(''address'', JStr ''a'')], [(''address'', JStr ''b'')], [(''address'', JStr ''c'')]]
          [\<lparr>key = ''address'', label = ''Address''\<rparr>] [])) 5 2 = [[(''address'', JStr ''c'')]]"
proof -
  let ?h = "\<lparr>numToString = (\<lambda>x. []), localeCompare = (\<lambda>a b. 0), unicodeToLowerCase = (\<lambda>s. s)\<rparr>"
  let ?data = "[[(''address'', JStr ''a'')], [(''address'', JStr ''b'')], [(''address'', JStr ''c'')]]"
  let ?rows = "sorted_rows ?h None None (filtered ?h ?data [\<lparr>key = ''address'', label = ''Address''\<rparr>] [])"
  have size: "(1::int) \<le> 2" and page: "(1::int) \<le> 5" by simp_all
  have rows: "?rows = ?data" by (simp add: sorted_rows_def filtered_def)
  obtain s where s: "safePage ?rows 5 2 = Fin s"
      and stop: "slice_end ?rows 5 2 = Fin (s * 2)"
      and run: "paged ?rows 5 2 = take (nat 2) (drop (nat ((s - 1) * 2)) ?rows)"
    using paging_within_bounds [OF size page, where h = ?h and sortKey = None and sortDir = None
        and data = ?data and columns = "[\<lparr>key = ''address'', label = ''Address''\<rparr>]" and search = "[]"]
    by blast
  have total: "totalPages ?rows 2 = Fin 2"
    unfolding rows by code_simp
  have safe: "safePage ?rows 5 2 = Fin 2"
    by (simp add: safePage_def total)
  then have two: "s = 2" using s by simp
  then have "paged ?rows 5 2 = [[(''address'', JStr ''c'')]]"
    using run unfolding rows by simp
  moreover have "slice_end ?rows 5 2 = Fin 4" using stop two by simp
  ultimately show ?thesis using total safe by simp
qed

text \<open>
  The claim as it was stated fails in two ways. The \<open>pageSize\<close> prop is any number: with no
  row and a page size of 0, \<open>0 / 0\<close> makes \<open>totalPages\<close> and \<open>safePage\<close> \<open>NaN\<close>; with a page
  size of \<open>-1\<close>, three rows give one page, and the slice from 0 to \<open>-1\<close> has two rows. And
  with a page size of at least 1 the end index of the slice still leaves the array: three
  rows shown two to a page give an end index of 4 on the last page, and the empty table
  with ten rows to a page gives an end index of 10.
\<close>

theorem paging_bounds_counterexample:
  "\<not> js_le (Fin 1) (totalPages ([] :: row list) 0)
   \<and> \<not> js_le (Fin 1) (safePage ([] :: row list) 1 0)
   \<and> \<not> int (length (paged [[(''address'', JStr ''a'')], [(''address'', JStr ''b'')],
                            [(''address'', JStr ''c'')]] 1 (- 1))) \<le> - 1
   \<and> \<not> js_le (slice_end [[(''address'', JStr ''a'')], [(''address'', JStr ''b'')],
                           [(''address'', JStr ''c'')]] 5 2) (Fin 3)
   \<and> \<not> js_le (slice_end ([] :: row list) 1 10) (Fin 0)"
  by code_simp

section \<open>Properties of the analytics engine\<close>

subsection \<open>The balance history\<close>

lemma walk_dates: "map sample_date (walk close_on events running days) = days"
  by (induction days arbitrary: running) (simp_all add: Let_def)

lemma sum_filter_disjoint:
  fixes f :: "'a \<Rightarrow> int"
  assumes "\<And>x. \<not> (P x \<and> Q x)"
  shows "sum_list (map f (filter (\<lambda>x. P x \<or> Q x) xs))
       = sum_list (map f (filter P xs)) + sum_list (map f (filter Q xs))"
  using assms by (induction xs) auto

lemma walk_last:
  assumes "days \<noteq> []" and "distinct days"
  shows "balance_satoshis (last (walk close_on events running days))
       = running + sum_list (map signed_value_satoshis (filter (\<lambda>e. event_date e \<in> set days) events))"
  using assms
proof (induction days arbitrary: running)
  case Nil
  then show ?case by simp
next
  case (Cons d ds)
  let ?today = "sum_list (map signed_value_satoshis (filter (\<lambda>e. event_date e = d) events))"
  show ?case
  proof (cases "ds = []")
    case True
    then show ?thesis by (simp add: Let_def)
  next
    case False
    have nonempty: "walk close_on events (running + ?today) ds \<noteq> []"
      using False by (cases ds) (simp_all add: Let_def)
    have split: "sum_list (map signed_value_satoshis (filter (\<lambda>e. event_date e \<in> set (d # ds)) events))
        = ?today + sum_list (map signed_value_satoshis (filter (\<lambda>e. event_date e \<in> set ds) events))"
      using sum_filter_disjoint[of "\<lambda>e. event_date e = d" "\<lambda>e. event_date e \<in> set ds" signed_value_satoshis events]
        Cons.prems(2) by auto
    have "balance_satoshis (last (walk close_on events running (d # ds)))
        = balance_satoshis (last (walk close_on events (running + ?today) ds))"
      using nonempty by (simp add: Let_def)
    also have "\<dots> = running + ?today
        + sum_list (map signed_value_satoshis (filter (\<lambda>e. event_date e \<in> set ds) events))"
      using Cons.IH[OF False, of "running + ?today"] Cons.prems(2) by simp
    finally show ?thesis using split by simp
  qed
qed

lemma sum_list_sort_key:
  fixes f :: "'a \<Rightarrow> int"
  shows "sum_list (map f (sort_key k xs)) = sum_list (map f xs)"
proof -
  have "mset (map f (sort_key k xs)) = mset (map f xs)" by simp
  then show ?thesis by (metis sum_mset_sum_list)
qed

lemma date_of_mono: "a \<le> b \<Longrightarrow> date_of a \<le> date_of b"
  by (simp add: date_of_def zdiv_mono1)

lemma sort_key_head_least:
  assumes "sort_key k xs = y # ys" and "x \<in> set xs"
  shows "k y \<le> k x"
proof -
  have "sorted (map k (y # ys))" using assms(1) sorted_sort_key[of k xs] by simp
  moreover have "x \<in> set (y # ys)" using assms by (metis set_sort)
  ultimately show ?thesis by auto
qed

text \<open>
  Claim C3, as amended. For every non-empty sequence of transfer events and every
  \<open>end_date\<close> on or after the date of the first event, the Balance History Builder returns a
  sequence with one sample per calendar day from the first event's date through
  \<open>end_date\<close>, and the \<open>balance_satoshis\<close> of the final sample is the sum of
  \<open>signed_value_satoshis\<close> over the events dated on or before \<open>end_date\<close>: each of those is
  counted once, and an event dated after \<open>end_date\<close> is not counted.
\<close>

theorem balance_history_final_balance:
  assumes "events \<noteq> []" and "Min (event_date ` set events) \<le> end_date"
  shows "\<exists>samples. build_balance_history close_on events end_date = Inr samples
       \<and> map sample_date samples = [Min (event_date ` set events)..end_date]
       \<and> balance_satoshis (last samples)
           = sum_list (map signed_value_satoshis (filter (\<lambda>e. event_date e \<le> end_date) events))"
proof -
  obtain e es where srt: "sort_key timestamp events = e # es"
    using assms(1) by (cases "sort_key timestamp events") (auto dest: arg_cong[where f = length])
  let ?first = "event_date e"
  have e_in: "e \<in> set events" using srt by (metis list.set_intros(1) set_sort)
  have least: "?first \<le> event_date x" if "x \<in> set events" for x
    using sort_key_head_least[OF srt that] by (simp add: event_date_def date_of_mono)
  have first: "Min (event_date ` set events) = ?first"
    using e_in least by (intro Min_eqI) auto
  have build: "build_balance_history close_on events end_date
      = Inr (walk close_on (e # es) 0 [?first..end_date])"
    using assms(2) by (simp add: build_balance_history_def srt first Let_def)
  have days: "[?first..end_date] \<noteq> []" "distinct [?first..end_date]"
    using assms(2) first by simp_all
  have same: "filter (\<lambda>x. event_date x \<in> set [?first..end_date]) (e # es)
      = filter (\<lambda>x. event_date x \<le> end_date) (sort_key timestamp events)"
    unfolding srt[symmetric]
    by (rule filter_cong) (auto simp: least)
  have "balance_satoshis (last (walk close_on (e # es) 0 [?first..end_date]))
      = sum_list (map signed_value_satoshis
          (filter (\<lambda>x. event_date x \<le> end_date) (sort_key timestamp events)))"
    using walk_last[OF days, of close_on "e # es" 0] same by simp
  also have "\<dots> = sum_list (map signed_value_satoshis (filter (\<lambda>x. event_date x \<le> end_date) events))"
    by (simp add: filter_sort sum_list_sort_key)
  finally show ?thesis using build first by (simp add: walk_dates)
qed

theorem balance_history_final_balance_witness:
  "[\<lparr>timestamp = 90000, address = ''A'', signed_value_satoshis = 7, usd_value_at_time = 0\<rparr>,
    \<lparr>timestamp = 100, address = ''A'', signed_value_satoshis = 5, usd_value_at_time = 0\<rparr>] \<noteq> []
   \<and> Min (event_date ` set
        [\<lparr>timestamp = 90000, address = ''A'', signed_value_satoshis = 7, usd_value_at_time = 0\<rparr>,
         \<lparr>timestamp = 100, address = ''A'', signed_value_satoshis = 5, usd_value_at_time = 0\<rparr>]) \<le> 2
   \<and> build_balance_history (\<lambda>day. 1)
        [\<lparr>timestamp = 90000, address = ''A'', signed_value_satoshis = 7, usd_value_at_time = 0\<rparr>,
         \<lparr>timestamp = 100, address = ''A'', signed_value_satoshis = 5, usd_value_at_time = 0\<rparr>] 2
      = Inr [\<lparr>sample_date = 0, balance_satoshis = 5, balance_usd = 5 / 100000000\<rparr>,
             \<lparr>sample_date = 1, balance_satoshis = 12, balance_usd = 12 / 100000000\<rparr>,
             \<lparr>sample_date = 2, balance_satoshis = 12, balance_usd = 12 / 100000000\<rparr>]"
proof -
  let ?events =
    "[\<lparr>timestamp = 90000, address = ''A'', signed_value_satoshis = 7, usd_value_at_time = 0\<rparr>,
      \<lparr>timestamp = 100, address = ''A'', signed_value_satoshis = 5, usd_value_at_time = 0\<rparr>]"
  have ne: "?events \<noteq> []" by simp
  have first: "Min (event_date ` set ?events) = 0"
    by (simp add: event_date_def date_of_def)
  then have win: "Min (event_date ` set ?events) \<le> 2" by simp
  obtain samples where built: "build_balance_history (\<lambda>day. 1) ?events 2 = Inr samples"
      and "map sample_date samples = [Min (event_date ` set ?events)..2]"
      and "balance_satoshis (last samples)
           = sum_list (map signed_value_satoshis (filter (\<lambda>e. event_date e \<le> 2) ?events))"
    using balance_history_final_balance [OF ne win, of "\<lambda>day. 1"] by blast
  have "build_balance_history (\<lambda>day. 1) ?events 2
      = Inr [\<lparr>sample_date = 0, balance_satoshis = 5, balance_usd = 5 / 100000000\<rparr>,
             \<lparr>sample_date = 1, balance_satoshis = 12, balance_usd = 12 / 100000000\<rparr>,
             \<lparr>sample_date = 2, balance_satoshis = 12, balance_usd = 12 / 100000000\<rparr>]"
    by code_simp
  then show ?thesis using ne win built by simp
qed

text \<open>
  The claim as it was stated fails when an event is dated after \<open>end_date\<close>: the walk stops
  at \<open>end_date\<close>. With one event of 5 satoshis on day 0, one of 7 on day 3 and an \<open>end_date\<close>
  of 1, the final balance is 5, and the sum over all events is 12.
\<close>

theorem balance_history_late_event_counterexample:
  "build_balance_history (\<lambda>day. 1)
     [\<lparr>timestamp = 0, address = ''A'', signed_value_satoshis = 5, usd_value_at_time = 0\<rparr>,
      \<lparr>timestamp = 259200, address = ''A'', signed_value_satoshis = 7, usd_value_at_time = 0\<rparr>] 1
   = Inr [\<lparr>sample_date = 0, balance_satoshis = 5, balance_usd = 5 / 100000000\<rparr>,
          \<lparr>sample_date = 1, balance_satoshis = 5, balance_usd = 5 / 100000000\<rparr>]
   \<and> sum_list (map signed_value_satoshis
        [\<lparr>timestamp = 0, address = ''A'', signed_value_satoshis = 5, usd_value_at_time = 0\<rparr>,
         \<lparr>timestamp = 259200, address = ''A'', signed_value_satoshis = 7, usd_value_at_time = 0\<rparr>])
     = 12"
  by code_simp

subsection \<open>Exposure\<close>

lemma sum_list_unit_bounds:
  fixes f :: "'a \<Rightarrow> rat"
  assumes "\<And>x. x \<in> set xs \<Longrightarrow> 0 \<le> f x \<and> f x \<le> 1"
  shows "0 \<le> sum_list (map f xs) \<and> sum_list (map f xs) \<le> of_nat (length xs)"
  using assms
proof (induction xs)
  case Nil
  then show ?case by simp
next
  case (Cons x xs)
  have "0 \<le> f x" "f x \<le> 1" using Cons.prems by simp_all
  moreover have "0 \<le> sum_list (map f xs) \<and> sum_list (map f xs) \<le> of_nat (length xs)"
    using Cons by simp
  ultimately show ?case by simp
qed

lemma exposure_range:
  assumes nonneg: "\<forall>s\<in>set samples. 0 \<le> balance_satoshis s"
  shows "0 \<le> exposure samples" and "exposure samples \<le> 1"
proof -
  let ?m = "Max (set (map balance_satoshis samples))"
  let ?f = "\<lambda>s. (of_int (balance_satoshis s) :: rat) / of_int ?m"
  have both: "0 \<le> exposure samples \<and> exposure samples \<le> 1"
  proof (cases "samples = [] \<or> ?m = 0")
    case True
    then show ?thesis by (auto simp: exposure_def Let_def)
  next
    case False
    then have ne: "samples \<noteq> []" and m0: "?m \<noteq> 0" by simp_all
    have le: "balance_satoshis s \<le> ?m" if "s \<in> set samples" for s
      using that by (intro Max_ge) auto
    obtain s0 where s0: "s0 \<in> set samples" using ne by (cases samples) auto
    have "0 \<le> balance_satoshis s0" using s0 nonneg by blast
    also have "\<dots> \<le> ?m" by (rule le[OF s0])
    finally have "0 \<le> ?m" .
    then have mpos: "0 < ?m" using m0 by simp
    have unit: "0 \<le> ?f s \<and> ?f s \<le> 1" if "s \<in> set samples" for s
      using that nonneg le[OF that] mpos by (simp add: divide_le_eq_1)
    have sums: "0 \<le> sum_list (map ?f samples) \<and> sum_list (map ?f samples) \<le> of_nat (length samples)"
      by (rule sum_list_unit_bounds) (rule unit)
    have npos: "(0::rat) < of_nat (length samples)" using ne by simp
    have ex: "exposure samples = sum_list (map ?f samples) / of_nat (length samples)"
      using ne m0 by (simp add: exposure_def Let_def)
    show ?thesis unfolding ex using sums npos by (simp add: divide_le_eq_1)
  qed
  show "0 \<le> exposure samples" and "exposure samples \<le> 1" using both by simp_all
qed

lemma exposure_all_zero:
  assumes "\<forall>s\<in>set samples. balance_satoshis s = 0"
  shows "exposure samples = 0"
proof (cases "samples = []")
  case True
  then show ?thesis by (simp add: exposure_def)
next
  case False
  have "set (map balance_satoshis samples) = {0}"
    using assms False by (cases samples) auto
  then have "Max (set (map balance_satoshis samples)) = 0" by simp
  then show ?thesis by (simp add: exposure_def Let_def)
qed

text \<open>
  Claim C4. For every balance history whose \<open>balance_satoshis\<close> are all non-negative:
  over a non-empty window, exposure is the mean over the days of the day's balance
  divided by the largest balance of the window, and 0 when that largest balance is 0;
  exposure lies between 0 and 1; and exposure is 0 when the balance is zero on every day.
\<close>

theorem exposure_in_unit_interval:
  assumes "\<forall>s\<in>set samples. 0 \<le> balance_satoshis s"
  shows "(samples \<noteq> [] \<longrightarrow>
            exposure samples
              = (if Max (balance_satoshis ` set samples) = 0 then 0
                 else (\<Sum>s\<leftarrow>samples. of_int (balance_satoshis s)
                          / of_int (Max (balance_satoshis ` set samples)))
                      / of_nat (length samples)))
       \<and> 0 \<le> exposure samples \<and> exposure samples \<le> 1
       \<and> ((\<forall>s\<in>set samples. balance_satoshis s = 0) \<longrightarrow> exposure samples = 0)"
  using exposure_range [OF assms] exposure_all_zero [of samples]
  by (simp add: exposure_def Let_def)

theorem exposure_in_unit_interval_witness:
  "list_all (\<lambda>s. 0 \<le> balance_satoshis s)
     [\<lparr>sample_date = 0, balance_satoshis = 4, balance_usd = 0\<rparr>,
      \<lparr>sample_date = 1, balance_satoshis = 2, balance_usd = 0\<rparr>]
   \<and> exposure [\<lparr>sample_date = 0, balance_satoshis = 4, balance_usd = 0\<rparr>,
               \<lparr>sample_date = 1, balance_satoshis = 2, balance_usd = 0\<rparr>] = 3 / 4
   \<and> 0 \<le> exposure [\<lparr>sample_date = 0, balance_satoshis = 4, balance_usd = 0\<rparr>,
                    \<lparr>sample_date = 1, balance_satoshis = 2, balance_usd = 0\<rparr>]
   \<and> exposure [\<lparr>sample_date = 0, balance_satoshis = 4, balance_usd = 0\<rparr>,
               \<lparr>sample_date = 1, balance_satoshis = 2, balance_usd = 0\<rparr>] \<le> 1"
proof -
  let ?samples = "[\<lparr>sample_date = 0, balance_satoshis = 4, balance_usd = 0\<rparr>,
                   \<lparr>sample_date = 1, balance_satoshis = 2, balance_usd = 0\<rparr>]"
  have nonneg: "\<forall>s\<in>set ?samples. 0 \<le> balance_satoshis s" by simp
  have computed: "exposure ?samples = 3 / 4" by (simp add: exposure_def)
  show ?thesis using nonneg computed exposure_in_unit_interval [OF nonneg] by simp
qed

end
